theory Spec2Isabelle
  imports Main "HOL-Library.Multiset" "HOL-Library.Word"
begin

section \<open>The server browser of \<open>main.mjs\<close>: data\<close>

text \<open>
  The bot queries a list of game servers, keeps the last results in a cache, turns the
  populated servers into embeds and keeps one message per embed in each configured
  channel. A text that is measured, trimmed or matched (server names, player names,
  titles, descriptions) is a \<open>jstring\<close>, the list of its UTF-16 code units, as
  JavaScript counts and compares them; \<open>js\<close> writes an ASCII literal as one. Addresses,
  cache keys and message ids are only joined and compared and stay \<open>string\<close>.
  Player counts are integers; a field that is absent, \<open>undefined\<close> or \<open>NaN\<close> is \<open>None\<close>.
\<close>

type_synonym jstring = "nat list"

definition js :: "string \<Rightarrow> jstring" where
  "js s = map of_char s"

definition QUERY_TIMEOUT :: nat where "QUERY_TIMEOUT = 100"
definition QUERY_DELAY :: nat where "QUERY_DELAY = 50"
definition MAX_RETRIES :: nat where "MAX_RETRIES = 1"

record server =
  address :: string
  port :: nat

record server_info =
  info_name :: "jstring option"
  info_players :: "int option"
  info_maxPlayers :: "int option"

text \<open>
  The \<open>duration\<close> of a player session, a JavaScript number or nothing. \<open>NoNumber\<close>:
  absent, \<open>undefined\<close> or \<open>NaN\<close>. \<open>Negative\<close>: any number below zero. \<open>Whole w\<close>: a
  number from 0 up to but not including \<open>2^53\<close>, with \<open>Math.floor\<close> of it \<open>w\<close>; in
  this range the divisions, \<open>Math.floor\<close> and the decimal print of \<open>formatDuration\<close>
  are exact, and a fractional part changes nothing. \<open>Large h m\<close>: a number from
  \<open>2^53\<close> on, \<open>Infinity\<close> included, given by the two texts JavaScript prints for its
  \<open>hours\<close> and \<open>minutes\<close>.
\<close>

datatype jsnumber = NoNumber | Negative | Whole "53 word" | Large jstring jstring

record player =
  player_name :: "jstring option"
  player_duration :: jsnumber

text \<open>The value stored per server key in \<open>lastSuccessfulQueryResults\<close>.\<close>

record cache_entry =
  serverInfo :: server_info
  playerList :: "player list"

text \<open>An element of \<open>serverDetails\<close>: the server (\<open>...server\<close>) and four more fields.\<close>

record server_detail = server +
  players :: int
  maxPlayers :: int
  name :: jstring
  sessions :: "player list"

record embed =
  title :: jstring
  description :: jstring

type_synonym msg_id = string

datatype error = QueryError | EmbedError | SendError

text \<open>
  What an awaited call of an external service does: it throws, or it resolves with a
  value, which may be a falsy one (\<open>None\<close>: \<open>undefined\<close> or \<open>null\<close>).
\<close>

datatype 'a reply = Throws | Resolves "'a option"

datatype event =
  InfoQuery string nat nat
  | PlayersQuery string nat nat
  | Delay nat

section \<open>Numbers and strings as JavaScript prints them\<close>

definition digit :: "nat \<Rightarrow> char" where
  "digit d = ''0123456789'' ! d"

function show_nat :: "nat \<Rightarrow> string" where
  "show_nat n =
     (if n < 10 then [digit n]
      else show_nat (n div 10) @ [digit (n mod 10)])"
  by pat_completeness auto
termination
  by (relation "measure id") auto

declare show_nat.simps [simp del]

definition show_int :: "int \<Rightarrow> string" where
  "show_int i = (if i < 0 then ''-'' @ show_nat (nat (- i)) else show_nat (nat i))"

definition padStart :: "nat \<Rightarrow> nat \<Rightarrow> jstring \<Rightarrow> jstring" where
  "padStart n c s = replicate (n - length s) c @ s"

text \<open>
  The code units that \<open>trim()\<close> strips and the class \<open>\s\<close> of a regular expression
  matches: the white space and line terminators of ECMAScript.
\<close>

definition isSpace :: "nat \<Rightarrow> bool" where
  "isSpace c \<longleftrightarrow>
     c \<in> {0x09, 0x0A, 0x0B, 0x0C, 0x0D, 0x20, 0xA0, 0x1680, 0x2028, 0x2029, 0x202F,
          0x205F, 0x3000, 0xFEFF}
     \<or> (0x2000 \<le> c \<and> c \<le> 0x200A)"

definition trim :: "jstring \<Rightarrow> jstring" where
  "trim s = rev (dropWhile isSpace (rev (dropWhile isSpace s)))"

fun join :: "jstring \<Rightarrow> jstring list \<Rightarrow> jstring" where
  "join sep [] = []"
| "join sep [x] = x"
| "join sep (x # y # ys) = x @ sep @ join sep (y # ys)"

text \<open>\<open>s.replace(/pat/g, rep)\<close> for a pattern without metacharacters: leftmost matches,
  not overlapping.\<close>

function replaceAll :: "jstring \<Rightarrow> jstring \<Rightarrow> jstring \<Rightarrow> jstring" where
  "replaceAll pat rep s =
     (if s = [] then []
      else if pat \<noteq> [] \<and> take (length pat) s = pat
        then rep @ replaceAll pat rep (drop (length pat) s)
      else hd s # replaceAll pat rep (tl s))"
  by pat_completeness auto
termination
  by (relation "measure (\<lambda>(pat, rep, s). length s)") auto

declare replaceAll.simps [simp del]

text \<open>\<open>s.replace(/\s+/g, ' ')\<close>: every maximal run of whitespace becomes one space.\<close>

function collapseSpaces :: "jstring \<Rightarrow> jstring" where
  "collapseSpaces [] = []"
| "collapseSpaces (c # cs) =
     (if isSpace c then 0x20 # collapseSpaces (dropWhile isSpace cs)
      else c # collapseSpaces cs)"
  by pat_completeness auto
termination
  by (relation "measure length") (auto simp: le_imp_less_Suc length_dropWhile_le)

text \<open>Line 285; \<open>0x200B\<close> is the zero-width space put after every period.\<close>

definition normalizeName :: "jstring \<Rightarrow> jstring" where
  "normalizeName s = replaceAll (js ''.'') (js ''.'' @ [0x200B]) (trim (collapseSpaces s))"

section \<open>Rendering\<close>

definition formatDuration :: "jsnumber \<Rightarrow> jstring" where
  "formatDuration seconds =
     (case seconds of
        NoNumber \<Rightarrow> js ''0:00''
      | Negative \<Rightarrow> js ''0:00''
      | Whole w \<Rightarrow>
          (let totalMinutes = unat w div 60;
               hours = totalMinutes div 60;
               minutes = totalMinutes mod 60
           in js (show_nat hours) @ js '':'' @ padStart 2 0x30 (js (show_nat minutes)))
      | Large hours minutes \<Rightarrow> hours @ js '':'' @ padStart 2 0x30 minutes)"

definition placeholder :: jstring where
  "placeholder = js ''Mehr als 40 Spieler - Liste deaktiviert.''"

text \<open>The filter of \<open>formatPlayerListEmbed\<close>: \<open>player.name && player.name.trim() !== ''\<close>.\<close>

definition hasName :: "player \<Rightarrow> bool" where
  "hasName p = (case player_name p of None \<Rightarrow> False | Some n \<Rightarrow> n \<noteq> [] \<and> trim n \<noteq> [])"

text \<open>One line of the list; \<open>player.duration || 0\<close> turns no number into 0.\<close>

definition formatPlayer :: "player \<Rightarrow> jstring" where
  "formatPlayer p =
     (let playerName = (case player_name p of None \<Rightarrow> js ''Unknown''
                        | Some n \<Rightarrow> if n = [] then js ''Unknown'' else n);
          playerTime = formatDuration
            (case player_duration p of NoNumber \<Rightarrow> Whole 0 | d \<Rightarrow> d)
      in playerName @ js '' ('' @ playerTime @ js '')'')"

definition formatPlayerListEmbed :: "player list \<Rightarrow> jstring" where
  "formatPlayerListEmbed ps =
     (if length ps > 40 then placeholder
      else join [0x0A] (map formatPlayer (filter hasName ps)))"

text \<open>The title and the description that \<open>createEmbedsForServer\<close> hands to the builder.\<close>

definition embedFor :: "server_detail \<Rightarrow> embed" where
  "embedFor server =
     (let block = formatPlayerListEmbed (sessions server)
      in \<lparr>title = name server,
          description = js ''Spieler: '' @ js (show_int (players server)) @ js ''/''
            @ js (show_int (maxPlayers server)) @ [0x0A, 0x0A] @ block\<rparr>)"

text \<open>
  \<open>EmbedBuilder\<close> of discord.js checks what it is given and throws otherwise:
  \<open>setTitle\<close> wants 1 to 256 code units, \<open>setDescription\<close> 1 to 4096.
\<close>

definition accepted :: "embed \<Rightarrow> bool" where
  "accepted e \<longleftrightarrow>
     1 \<le> length (title e) \<and> length (title e) \<le> 256
     \<and> 1 \<le> length (description e) \<and> length (description e) \<le> 4096"

definition createEmbedsForServer :: "server_detail \<Rightarrow> error + embed list" where
  "createEmbedsForServer server =
     (if accepted (embedFor server) then Inr [embedFor server] else Inl EmbedError)"

section \<open>Querying one server\<close>

text \<open>
  The query socket is outside the program. \<open>query_info q addr prt timeout k\<close> is what
  the call number \<open>k\<close> (from 0) of \<open>query.info(addr, prt, timeout)\<close> in the running cycle
  does, and likewise \<open>query_players\<close>. The functions return their value, or the error
  they throw, and the calls and waits they made.
\<close>

record transport =
  query_info :: "string \<Rightarrow> nat \<Rightarrow> nat \<Rightarrow> nat \<Rightarrow> server_info reply"
  query_players :: "string \<Rightarrow> nat \<Rightarrow> nat \<Rightarrow> nat \<Rightarrow> player list reply"

type_synonym cache = "string \<rightharpoonup> cache_entry"

definition serverKeyOf :: "string \<Rightarrow> nat \<Rightarrow> string" where
  "serverKeyOf addr prt = addr @ '':'' @ show_nat prt"

definition emptyInfo :: server_info where
  "emptyInfo = \<lparr>info_name = None, info_players = None, info_maxPlayers = None\<rparr>"

text \<open>
  \<open>getPlayerList(address, port, retries)\<close>; \<open>k\<close> counts the calls of \<open>query.players\<close>
  already made for this server. A stored \<open>playerList\<close> is an array and a stored
  \<open>serverInfo\<close> an object, both truthy, so the tests
  \<open>lastSuccessfulQueryResults[serverKey]?.playerList\<close> and \<open>?.serverInfo\<close> ask
  whether the key has an entry.
\<close>

fun getPlayerList ::
  "cache \<Rightarrow> transport \<Rightarrow> string \<Rightarrow> nat \<Rightarrow> nat \<Rightarrow> nat \<Rightarrow> (error + player list) \<times> event list"
where
  "getPlayerList cache q addr prt 0 k =
     (case query_players q addr prt QUERY_TIMEOUT k of
        Resolves list \<Rightarrow>
          (Inr (case list of None \<Rightarrow> [] | Some ps \<Rightarrow> ps),
           [PlayersQuery addr prt QUERY_TIMEOUT])
      | Throws \<Rightarrow>
          (case cache (serverKeyOf addr prt) of
             Some entry \<Rightarrow> Inr (playerList entry)
           | None \<Rightarrow> Inr [],
           [PlayersQuery addr prt QUERY_TIMEOUT]))"
| "getPlayerList cache q addr prt (Suc retries) k =
     (case query_players q addr prt QUERY_TIMEOUT k of
        Resolves list \<Rightarrow>
          (Inr (case list of None \<Rightarrow> [] | Some ps \<Rightarrow> ps),
           [PlayersQuery addr prt QUERY_TIMEOUT])
      | Throws \<Rightarrow>
          (case getPlayerList cache q addr prt retries (Suc k) of
             (res, evs) \<Rightarrow>
               (res, [PlayersQuery addr prt QUERY_TIMEOUT, Delay QUERY_DELAY] @ evs)))"

definition getServerInfo ::
  "cache \<Rightarrow> transport \<Rightarrow> string \<Rightarrow> nat \<Rightarrow> (error + server_info) \<times> event list"
where
  "getServerInfo cache q addr prt =
     (let serverKey = serverKeyOf addr prt
      in (case query_info q addr prt QUERY_TIMEOUT 0 of
            Resolves info \<Rightarrow> Inr (case info of None \<Rightarrow> emptyInfo | Some i \<Rightarrow> i)
          | Throws \<Rightarrow>
              (case cache serverKey of
                 Some entry \<Rightarrow> Inr (serverInfo entry)
               | None \<Rightarrow> Inr emptyInfo),
          [InfoQuery addr prt QUERY_TIMEOUT]))"

text \<open>The object the callback of \<open>servers.map\<close> returns.\<close>

definition mkDetail :: "server \<Rightarrow> server_info \<Rightarrow> player list \<Rightarrow> server_detail" where
  "mkDetail server info ps =
     \<lparr>address = address server, port = port server,
      players = (case info_players info of None \<Rightarrow> 0 | Some n \<Rightarrow> n),
      maxPlayers =
        (case info_maxPlayers info of None \<Rightarrow> 100 | Some n \<Rightarrow> if n = 0 then 100 else n),
      name =
        (case info_name info of
           None \<Rightarrow> js ''Unknown Server''
         | Some n \<Rightarrow> if n = [] then js ''Unknown Server'' else normalizeName n),
      sessions = ps\<rparr>"

text \<open>
  The callback of \<open>servers.map\<close> in \<open>updateServers\<close>, for one server: the two queries,
  the cache write after them, and the \<open>catch\<close> branch that reads the cache instead.
\<close>

definition queryServer :: "cache \<Rightarrow> transport \<Rightarrow> server \<Rightarrow> cache \<times> server_detail \<times> event list" where
  "queryServer cache q server =
     (let serverKey = serverKeyOf (address server) (port server);
          onError = (\<lambda>evs.
            case cache serverKey of
              Some entry \<Rightarrow> (cache, mkDetail server (serverInfo entry) (playerList entry), evs)
            | None \<Rightarrow> (cache, mkDetail server emptyInfo [], evs))
      in case getServerInfo cache q (address server) (port server) of
           (Inl e, ev1) \<Rightarrow> onError (Delay QUERY_DELAY # ev1)
         | (Inr info, ev1) \<Rightarrow>
             (case getPlayerList cache q (address server) (port server) MAX_RETRIES 0 of
                (Inl e, ev2) \<Rightarrow> onError (Delay QUERY_DELAY # ev1 @ ev2)
              | (Inr ps, ev2) \<Rightarrow>
                  (cache(serverKey \<mapsto> \<lparr>serverInfo = info, playerList = ps\<rparr>),
                   mkDetail server info ps,
                   Delay QUERY_DELAY # ev1 @ ev2)))"

text \<open>
  \<open>Promise.all(servers.map(...))\<close>. The tasks of different servers touch different
  cache keys, so they are run here one after the other, in list order; each returns its
  own events.
\<close>

fun queryAll ::
  "cache \<Rightarrow> transport \<Rightarrow> server list \<Rightarrow> cache \<times> server_detail list \<times> event list list"
where
  "queryAll cache q [] = (cache, [], [])"
| "queryAll cache q (server # rest) =
     (case queryServer cache q server of
        (cache1, d, evs) \<Rightarrow>
          (case queryAll cache1 q rest of
             (cache2, ds, evss) \<Rightarrow> (cache2, d # ds, evs # evss)))"

section \<open>Filter, sort, dedupe\<close>

text \<open>\<open>Array.prototype.sort\<close> is stable; so is \<open>sort_key\<close>.\<close>

definition sortServers :: "server_detail list \<Rightarrow> server_detail list" where
  "sortServers serverDetails =
     sort_key (\<lambda>d. - players d)
       (filter (\<lambda>d. players d > 0 \<and> players d \<le> 40) serverDetails)"

definition rewriteName :: "jstring \<Rightarrow> jstring" where
  "rewriteName n = replaceAll (js ''Clan!Twitch'') (js ''Clan'') n"

text \<open>
  The loop over \<open>sortedServers\<close>. It returns the embeds, or the error of the builder,
  which nothing inside the loop catches, and with either the names \<open>logger.warn\<close> has
  reported by then.
\<close>

fun dedupe ::
  "server_detail list \<Rightarrow> embed list \<Rightarrow> jstring set \<Rightarrow> jstring list
     \<Rightarrow> (error + embed list) \<times> jstring list"
where
  "dedupe [] embedsToSend seenServerNames warnings = (Inr embedsToSend, warnings)"
| "dedupe (server # rest) embedsToSend seenServerNames warnings =
     (if rewriteName (name server) \<notin> seenServerNames
      then
        (case createEmbedsForServer (server\<lparr>name := rewriteName (name server)\<rparr>) of
           Inl err \<Rightarrow> (Inl err, warnings)
         | Inr serverEmbeds \<Rightarrow>
             dedupe rest (embedsToSend @ serverEmbeds)
               (insert (rewriteName (name server)) seenServerNames) warnings)
      else dedupe rest embedsToSend seenServerNames
             (warnings @ [rewriteName (name server)]))"

section \<open>Reconciling the messages of a channel\<close>

text \<open>
  Discord is outside the program too. A fetched channel says, for each index \<open>i\<close> of the
  two loops, whether \<open>channel.messages.fetch(previousMessages[i])\<close> resolves, whether
  \<open>msg.edit\<close> and \<open>msg.delete\<close> on that message resolve, and what \<open>channel.send\<close> of
  the embed at index \<open>i\<close> does: \<open>None\<close> when it throws, the id of the new message
  otherwise. \<open>channels_fetch\<close> is \<open>client.channels.fetch(channelId)\<close>.
\<close>

record channel =
  messages_fetch :: "nat \<Rightarrow> bool"
  msg_edit :: "nat \<Rightarrow> bool"
  send :: "nat \<Rightarrow> msg_id option"
  msg_delete :: "nat \<Rightarrow> bool"

type_synonym discord = "string \<Rightarrow> channel reply"

type_synonym slots = "string \<rightharpoonup> msg_id list"

datatype op =
  is_Edit: Edit msg_id embed
  | is_EditFailed: EditFailed msg_id
  | is_Send: Send embed msg_id
  | is_SendFailed: SendFailed embed
  | is_Delete: Delete msg_id
  | is_DeleteFailed: DeleteFailed msg_id

text \<open>
  The first loop, from index \<open>i\<close> on, over the embeds not yet handled. An error of
  \<open>channel.send\<close> is not caught inside the loop and ends it.
\<close>

fun reconcileSlots ::
  "channel \<Rightarrow> msg_id list \<Rightarrow> nat \<Rightarrow> embed list \<Rightarrow> msg_id list \<Rightarrow> op list
     \<Rightarrow> (error + msg_id list) \<times> op list"
where
  "reconcileSlots ch previousMessages i [] newMessages ops = (Inr newMessages, ops)"
| "reconcileSlots ch previousMessages i (e # rest) newMessages ops =
     (if i < length previousMessages then
        (if messages_fetch ch i \<and> msg_edit ch i then
           reconcileSlots ch previousMessages (Suc i) rest
             (newMessages @ [previousMessages ! i]) (ops @ [Edit (previousMessages ! i) e])
         else
           (case send ch i of
              None \<Rightarrow> (Inl SendError, ops @ [EditFailed (previousMessages ! i), SendFailed e])
            | Some m \<Rightarrow>
                reconcileSlots ch previousMessages (Suc i) rest
                  (newMessages @ [m]) (ops @ [EditFailed (previousMessages ! i), Send e m])))
      else
        (case send ch i of
           None \<Rightarrow> (Inl SendError, ops @ [SendFailed e])
         | Some m \<Rightarrow>
             reconcileSlots ch previousMessages (Suc i) rest
               (newMessages @ [m]) (ops @ [Send e m])))"

text \<open>The second loop: the slots from index \<open>n\<close> on are fetched and deleted; an error is
  caught and logged.\<close>

definition deleteLeftovers :: "channel \<Rightarrow> msg_id list \<Rightarrow> nat \<Rightarrow> op list" where
  "deleteLeftovers ch previousMessages n =
     map (\<lambda>i. if messages_fetch ch i \<and> msg_delete ch i
               then Delete (previousMessages ! i)
               else DeleteFailed (previousMessages ! i))
       [n ..< length previousMessages]"

text \<open>\<open>lastMessages[channelId] || []\<close>.\<close>

definition slotsOf :: "slots \<Rightarrow> string \<Rightarrow> msg_id list" where
  "slotsOf lastMessages channelId =
     (case lastMessages channelId of None \<Rightarrow> [] | Some ms \<Rightarrow> ms)"

text \<open>The body of the loop over the channel ids, with its \<open>try\<close> and \<open>catch\<close>.\<close>

definition reconcileChannel ::
  "discord \<Rightarrow> embed list \<Rightarrow> string \<Rightarrow> slots \<Rightarrow> slots \<times> op list"
where
  "reconcileChannel client embedsToSend channelId lastMessages =
     (case client channelId of
        Throws \<Rightarrow> (lastMessages, [])
      | Resolves None \<Rightarrow> (lastMessages, [])
      | Resolves (Some ch) \<Rightarrow>
          (let previousMessages = slotsOf lastMessages channelId
           in case reconcileSlots ch previousMessages 0 embedsToSend [] [] of
                (Inl err, ops) \<Rightarrow> (lastMessages, ops)
              | (Inr newMessages, ops) \<Rightarrow>
                  (lastMessages(channelId \<mapsto> newMessages),
                   ops @ deleteLeftovers ch previousMessages (length embedsToSend))))"

fun reconcileChannels ::
  "discord \<Rightarrow> embed list \<Rightarrow> string list \<Rightarrow> slots \<Rightarrow> slots \<times> op list"
where
  "reconcileChannels client embedsToSend [] lastMessages = (lastMessages, [])"
| "reconcileChannels client embedsToSend (channelId # rest) lastMessages =
     (case reconcileChannel client embedsToSend channelId lastMessages of
        (lastMessages1, ops1) \<Rightarrow>
          (case reconcileChannels client embedsToSend rest lastMessages1 of
             (lastMessages2, ops2) \<Rightarrow> (lastMessages2, ops1 @ ops2)))"

section \<open>The update cycle\<close>

record bot =
  lastSuccessfulQueryResults :: cache
  lastMessages :: slots
  isUpdating :: bool

record env =
  servers :: "server list"
  channelIds :: "string list"
  query :: transport
  client :: discord

record report =
  queryEvents :: "event list list"
  duplicateWarnings :: "jstring list"
  surfaceOps :: "op list"

text \<open>
  \<open>updateServers\<close>: one cycle, from the state before it to the state after it, with what
  it did. \<open>channelIds\<close> is \<open>[CHANNEL_ID_1, CHANNEL_ID_2]\<close>. An error of the builder
  lands in the outer \<open>catch\<close>: the cache is written by then, no channel is touched.
\<close>

definition updateServers :: "env \<Rightarrow> bot \<Rightarrow> bot \<times> report" where
  "updateServers e st =
     (if isUpdating st then
        (st, \<lparr>queryEvents = [], duplicateWarnings = [], surfaceOps = []\<rparr>)
      else
        (case queryAll (lastSuccessfulQueryResults st) (query e) (servers e) of
           (cache1, serverDetails, evss) \<Rightarrow>
             (case dedupe (sortServers serverDetails) [] {} [] of
                (Inl err, warnings) \<Rightarrow>
                  (\<lparr>lastSuccessfulQueryResults = cache1,
                    lastMessages = lastMessages st,
                    isUpdating = False\<rparr>,
                   \<lparr>queryEvents = evss, duplicateWarnings = warnings, surfaceOps = []\<rparr>)
              | (Inr embedsToSend, warnings) \<Rightarrow>
                  (case reconcileChannels (client e) embedsToSend (channelIds e)
                          (lastMessages st) of
                     (lastMessages1, ops) \<Rightarrow>
                       (\<lparr>lastSuccessfulQueryResults = cache1,
                         lastMessages = lastMessages1,
                         isUpdating = False\<rparr>,
                        \<lparr>queryEvents = evss, duplicateWarnings = warnings,
                         surfaceOps = ops\<rparr>)))))"

section \<open>Example inputs\<close>

definition infoOld :: server_info where
  "infoOld = \<lparr>info_name = Some (js ''GER One''), info_players = Some 12, info_maxPlayers = Some 100\<rparr>"

definition infoNew :: server_info where
  "infoNew = \<lparr>info_name = Some (js ''GER One''), info_players = Some 30, info_maxPlayers = Some 100\<rparr>"

definition playersOld :: "player list" where
  "playersOld = [\<lparr>player_name = Some (js ''Bob''), player_duration = Whole 125\<rparr>]"

definition exServer :: server where
  "exServer = \<lparr>address = ''10.0.0.1'', port = 27015\<rparr>"

definition exCache :: cache where
  "exCache = [''10.0.0.1:27015'' \<mapsto> \<lparr>serverInfo = infoOld, playerList = playersOld\<rparr>]"

text \<open>A server that answers the info query and never the players query.\<close>

definition infoOnlyTransport :: transport where
  "infoOnlyTransport =
     \<lparr>query_info = (\<lambda>addr prt timeout k. Resolves (Some infoNew)),
      query_players = (\<lambda>addr prt timeout k. Throws)\<rparr>"

text \<open>A server that answers nothing.\<close>

definition deadTransport :: transport where
  "deadTransport =
     \<lparr>query_info = (\<lambda>addr prt timeout k. Throws),
      query_players = (\<lambda>addr prt timeout k. Throws)\<rparr>"

text \<open>A server that misses the first call of each kind and answers from the second on.\<close>

definition secondTryTransport :: transport where
  "secondTryTransport =
     \<lparr>query_info = (\<lambda>addr prt timeout k. if k = 0 then Throws else Resolves (Some infoNew)),
      query_players =
        (\<lambda>addr prt timeout k. if k = 0 then Throws else Resolves (Some playersOld))\<rparr>"

definition exEmbed :: "nat \<Rightarrow> embed" where
  "exEmbed n = \<lparr>title = js (''GER '' @ show_nat n), description = js ''Spieler: 5/100''\<rparr>"

definition exSlots :: slots where
  "exSlots = [''chan1'' \<mapsto> [''old0'']]"

definition exSlots3 :: slots where
  "exSlots3 = [''chan1'' \<mapsto> [''old0'', ''old1'', ''old2'']]"

text \<open>A channel where every call succeeds; the message sent at index \<open>i\<close> gets the id
  \<open>new\<close>\<open>i\<close>.\<close>

definition okChannel :: channel where
  "okChannel =
     \<lparr>messages_fetch = (\<lambda>i. True), msg_edit = (\<lambda>i. True),
      send = (\<lambda>i. Some (''new'' @ show_nat i)), msg_delete = (\<lambda>i. True)\<rparr>"

definition okDiscord :: discord where
  "okDiscord = (\<lambda>channelId. Resolves (Some okChannel))"

text \<open>A channel that can be fetched and where every call on messages throws.\<close>

definition brokenChannel :: channel where
  "brokenChannel =
     \<lparr>messages_fetch = (\<lambda>i. False), msg_edit = (\<lambda>i. False),
      send = (\<lambda>i. None), msg_delete = (\<lambda>i. False)\<rparr>"

definition brokenDiscord :: discord where
  "brokenDiscord = (\<lambda>channelId. Resolves (Some brokenChannel))"

text \<open>A channel where only \<open>msg.edit\<close> throws.\<close>

definition noEditChannel :: channel where
  "noEditChannel =
     \<lparr>messages_fetch = (\<lambda>i. True), msg_edit = (\<lambda>i. False),
      send = (\<lambda>i. Some (''new'' @ show_nat i)), msg_delete = (\<lambda>i. True)\<rparr>"

definition noEditDiscord :: discord where
  "noEditDiscord = (\<lambda>channelId. Resolves (Some noEditChannel))"

text \<open>\<open>chan1\<close> cannot be fetched, every other channel works.\<close>

definition halfDiscord :: discord where
  "halfDiscord =
     (\<lambda>channelId. if channelId = ''chan1'' then Throws else Resolves (Some okChannel))"

definition exEnv :: env where
  "exEnv = \<lparr>servers = [exServer], channelIds = [''chan1'', ''chan2''],
            query = infoOnlyTransport, client = okDiscord\<rparr>"

definition exBot :: bot where
  "exBot = \<lparr>lastSuccessfulQueryResults = exCache, lastMessages = Map.empty,
            isUpdating = False\<rparr>"

section \<open>Evaluating the examples\<close>

lemma exKey: "serverKeyOf ''10.0.0.1'' 27015 = ''10.0.0.1:27015''"
  by (simp add: serverKeyOf_def show_nat.simps digit_def)

lemma show_int_examples:
  "show_int 3 = ''3''" "show_int 20 = ''20''" "show_int 40 = ''40''" "show_int 100 = ''100''"
  by (simp_all add: show_int_def show_nat.simps digit_def)

lemma show_nat_examples:
  "show_nat 0 = ''0''" "show_nat 1 = ''1''" "show_nat 2 = ''2''"
  "show_nat (Suc 0) = ''1''" "show_nat (Suc (Suc 0)) = ''2''"
  by (simp_all add: show_nat.simps digit_def)

section \<open>The query functions\<close>

lemma getPlayerList_all_throw:
  "\<forall>j\<le>retries. query_players q addr prt QUERY_TIMEOUT (k + j) = Throws \<Longrightarrow>
   getPlayerList cache q addr prt retries k =
     (Inr (case cache (serverKeyOf addr prt) of None \<Rightarrow> [] | Some entry \<Rightarrow> playerList entry),
      concat (replicate retries [PlayersQuery addr prt QUERY_TIMEOUT, Delay QUERY_DELAY])
        @ [PlayersQuery addr prt QUERY_TIMEOUT])"
proof (induction retries arbitrary: k)
  case 0
  then show ?case by (simp split: option.splits)
next
  case (Suc r)
  from Suc.prems have here: "query_players q addr prt QUERY_TIMEOUT k = Throws"
    by (metis add.right_neutral le0)
  from Suc.prems have "\<forall>j\<le>r. query_players q addr prt QUERY_TIMEOUT (Suc k + j) = Throws"
    by (metis Suc_le_mono add_Suc_shift)
  from Suc.IH [OF this] here show ?case by simp
qed

lemma getPlayerList_resolves:
  "n \<le> retries \<Longrightarrow> \<forall>j<n. query_players q addr prt QUERY_TIMEOUT (k + j) = Throws \<Longrightarrow>
   query_players q addr prt QUERY_TIMEOUT (k + n) = Resolves v \<Longrightarrow>
   getPlayerList cache q addr prt retries k =
     (Inr (case v of None \<Rightarrow> [] | Some ps \<Rightarrow> ps),
      concat (replicate n [PlayersQuery addr prt QUERY_TIMEOUT, Delay QUERY_DELAY])
        @ [PlayersQuery addr prt QUERY_TIMEOUT])"
proof (induction retries arbitrary: k n)
  case 0
  then show ?case by simp
next
  case (Suc r)
  show ?case
  proof (cases n)
    case 0
    with Suc.prems show ?thesis by simp
  next
    case (Suc m)
    with Suc.prems have here: "query_players q addr prt QUERY_TIMEOUT k = Throws"
      by (metis add.right_neutral zero_less_Suc)
    from Suc Suc.prems have a: "m \<le> r" by simp
    from Suc Suc.prems have b: "\<forall>j<m. query_players q addr prt QUERY_TIMEOUT (Suc k + j) = Throws"
      by (metis Suc_less_eq add_Suc_shift)
    from Suc Suc.prems have c: "query_players q addr prt QUERY_TIMEOUT (Suc k + m) = Resolves v"
      by simp
    from Suc.IH [OF a b c] here Suc show ?thesis by simp
  qed
qed

lemma getPlayerList_returns: "\<exists>v. fst (getPlayerList cache q addr prt retries k) = Inr v"
proof (induction retries arbitrary: k)
  case 0
  then show ?case by (simp split: reply.splits option.splits)
next
  case (Suc r)
  obtain res evs where rec: "getPlayerList cache q addr prt r (Suc k) = (res, evs)"
    by (cases "getPlayerList cache q addr prt r (Suc k)")
  with Suc.IH [of "Suc k"] obtain v where "res = Inr v" by auto
  with rec show ?case by (simp split: reply.splits)
qed

lemma getServerInfo_returns: "\<exists>v. fst (getServerInfo cache q addr prt) = Inr v"
  by (auto simp: getServerInfo_def split: reply.splits option.splits)

lemma getServerInfo_throws:
  "query_info q addr prt QUERY_TIMEOUT 0 = Throws \<Longrightarrow>
   fst (getServerInfo cache q addr prt) =
     Inr (case cache (serverKeyOf addr prt) of None \<Rightarrow> emptyInfo | Some entry \<Rightarrow> serverInfo entry)"
  by (simp add: getServerInfo_def split: option.splits)

lemma updateServers_cache:
  "lastSuccessfulQueryResults (fst (updateServers e st)) =
     (if isUpdating st then lastSuccessfulQueryResults st
      else fst (queryAll (lastSuccessfulQueryResults st) (query e) (servers e)))"
  by (simp add: updateServers_def split: prod.splits sum.splits)

text \<open>
  Claim C1. The cache entry of a server is overwritten only by a cycle in which that
  server's queries succeeded; a cycle where the players query fails and the info query
  succeeds leaves the previous pair untouched. The code does otherwise: the two query
  functions return a fallback instead of throwing, so the write after them always runs.
  With the pair \<open>(infoOld, playersOld)\<close> cached, an info query that answers \<open>infoNew\<close>
  and a players query that fails at every attempt, the cycle caches the mixed pair
  \<open>(infoNew, playersOld)\<close>; with nothing cached and both queries failing it caches the
  empty pair.
\<close>

theorem failed_players_query_overwrites_cache:
  "exCache ''10.0.0.1:27015'' = Some \<lparr>serverInfo = infoOld, playerList = playersOld\<rparr>
   \<and> infoNew \<noteq> infoOld
   \<and> fst (queryServer exCache infoOnlyTransport exServer) ''10.0.0.1:27015'' =
       Some \<lparr>serverInfo = infoNew, playerList = playersOld\<rparr>
   \<and> lastSuccessfulQueryResults (fst (updateServers exEnv exBot)) ''10.0.0.1:27015'' =
       Some \<lparr>serverInfo = infoNew, playerList = playersOld\<rparr>
   \<and> fst (queryServer Map.empty deadTransport exServer) ''10.0.0.1:27015'' =
       Some \<lparr>serverInfo = emptyInfo, playerList = []\<rparr>"
proof -
  have mixed: "fst (queryServer exCache infoOnlyTransport exServer) ''10.0.0.1:27015'' =
       Some \<lparr>serverInfo = infoNew, playerList = playersOld\<rparr>"
    by (simp add: queryServer_def getServerInfo_def exKey exServer_def exCache_def
        infoOnlyTransport_def MAX_RETRIES_def)
  have "lastSuccessfulQueryResults (fst (updateServers exEnv exBot)) =
       fst (queryServer exCache infoOnlyTransport exServer)"
    by (simp add: updateServers_cache exEnv_def exBot_def split: prod.splits)
  with mixed have cycle:
    "lastSuccessfulQueryResults (fst (updateServers exEnv exBot)) ''10.0.0.1:27015'' =
       Some \<lparr>serverInfo = infoNew, playerList = playersOld\<rparr>"
    by simp
  have empty: "fst (queryServer Map.empty deadTransport exServer) ''10.0.0.1:27015'' =
       Some \<lparr>serverInfo = emptyInfo, playerList = []\<rparr>"
    by (simp add: queryServer_def getServerInfo_def exKey exServer_def
        deadTransport_def MAX_RETRIES_def)
  have "infoNew \<noteq> infoOld"
    by (simp add: infoNew_def infoOld_def)
  with mixed cycle empty show ?thesis
    by (simp add: exCache_def)
qed

text \<open>
  Claim C2, amended. The players query (\<open>getPlayerList\<close>) repeats a failed call up to
  \<open>MAX_RETRIES\<close> times and waits \<open>QUERY_DELAY\<close> before each retry: when the first \<open>n\<close>
  calls throw and call \<open>n \<le> MAX_RETRIES\<close> resolves, it returns that answer after \<open>n\<close>
  pairs of call and wait and one more call; when all \<open>MAX_RETRIES + 1\<close> calls throw it
  returns the cache fallback after \<open>MAX_RETRIES\<close> such pairs and one more call. The info
  query (\<open>getServerInfo\<close>) makes one call, waits for nothing, and on a throw returns the
  cache fallback at once.
\<close>

theorem players_query_retries_info_query_does_not:
  "(\<forall>n v. n \<le> MAX_RETRIES
        \<and> (\<forall>j<n. query_players q addr prt QUERY_TIMEOUT j = Throws)
        \<and> query_players q addr prt QUERY_TIMEOUT n = Resolves v \<longrightarrow>
      getPlayerList cache q addr prt MAX_RETRIES 0 =
        (Inr (case v of None \<Rightarrow> [] | Some ps \<Rightarrow> ps),
         concat (replicate n [PlayersQuery addr prt QUERY_TIMEOUT, Delay QUERY_DELAY])
           @ [PlayersQuery addr prt QUERY_TIMEOUT]))
   \<and> ((\<forall>j\<le>MAX_RETRIES. query_players q addr prt QUERY_TIMEOUT j = Throws) \<longrightarrow>
      getPlayerList cache q addr prt MAX_RETRIES 0 =
        (Inr (case cache (serverKeyOf addr prt) of
                None \<Rightarrow> [] | Some entry \<Rightarrow> playerList entry),
         concat (replicate MAX_RETRIES [PlayersQuery addr prt QUERY_TIMEOUT, Delay QUERY_DELAY])
           @ [PlayersQuery addr prt QUERY_TIMEOUT]))
   \<and> snd (getServerInfo cache q addr prt) = [InfoQuery addr prt QUERY_TIMEOUT]
   \<and> (query_info q addr prt QUERY_TIMEOUT 0 = Throws \<longrightarrow>
        fst (getServerInfo cache q addr prt) =
          Inr (case cache (serverKeyOf addr prt) of
                 None \<Rightarrow> emptyInfo | Some entry \<Rightarrow> serverInfo entry))"
proof -
  have "getPlayerList cache q addr prt MAX_RETRIES 0 =
        (Inr (case v of None \<Rightarrow> [] | Some ps \<Rightarrow> ps),
         concat (replicate n [PlayersQuery addr prt QUERY_TIMEOUT, Delay QUERY_DELAY])
           @ [PlayersQuery addr prt QUERY_TIMEOUT])"
    if "n \<le> MAX_RETRIES" "\<forall>j<n. query_players q addr prt QUERY_TIMEOUT j = Throws"
      "query_players q addr prt QUERY_TIMEOUT n = Resolves v" for n v
    using getPlayerList_resolves [of n MAX_RETRIES q addr prt 0 v cache] that by simp
  moreover have "getPlayerList cache q addr prt MAX_RETRIES 0 =
        (Inr (case cache (serverKeyOf addr prt) of
                None \<Rightarrow> [] | Some entry \<Rightarrow> playerList entry),
         concat (replicate MAX_RETRIES [PlayersQuery addr prt QUERY_TIMEOUT, Delay QUERY_DELAY])
           @ [PlayersQuery addr prt QUERY_TIMEOUT])"
    if "\<forall>j\<le>MAX_RETRIES. query_players q addr prt QUERY_TIMEOUT j = Throws"
    using getPlayerList_all_throw [of MAX_RETRIES q addr prt 0 cache] that by simp
  moreover have "snd (getServerInfo cache q addr prt) = [InfoQuery addr prt QUERY_TIMEOUT]"
    by (simp add: getServerInfo_def)
  ultimately show ?thesis
    using getServerInfo_throws [of q addr prt cache] by blast
qed

theorem players_query_retries_info_query_does_not_witness:
  "getPlayerList Map.empty secondTryTransport ''10.0.0.1'' 27015 MAX_RETRIES 0 =
     (Inr playersOld,
      [PlayersQuery ''10.0.0.1'' 27015 100, Delay 50, PlayersQuery ''10.0.0.1'' 27015 100])
   \<and> getPlayerList exCache deadTransport ''10.0.0.1'' 27015 MAX_RETRIES 0 =
     (Inr playersOld,
      [PlayersQuery ''10.0.0.1'' 27015 100, Delay 50, PlayersQuery ''10.0.0.1'' 27015 100])
   \<and> snd (getServerInfo exCache deadTransport ''10.0.0.1'' 27015) =
     [InfoQuery ''10.0.0.1'' 27015 100]
   \<and> fst (getServerInfo exCache deadTransport ''10.0.0.1'' 27015) = Inr infoOld"
proof -
  let ?a = "''10.0.0.1''"
  have budget: "1 \<le> MAX_RETRIES"
    by (simp add: MAX_RETRIES_def)
  have miss: "\<forall>j<1. query_players secondTryTransport ?a 27015 QUERY_TIMEOUT j = Throws"
    by (simp add: secondTryTransport_def)
  have hit: "query_players secondTryTransport ?a 27015 QUERY_TIMEOUT 1 = Resolves (Some playersOld)"
    by (simp add: secondTryTransport_def)
  have dead: "\<forall>j\<le>MAX_RETRIES. query_players deadTransport ?a 27015 QUERY_TIMEOUT j = Throws"
    by (simp add: deadTransport_def)
  have deadInfo: "query_info deadTransport ?a 27015 QUERY_TIMEOUT 0 = Throws"
    by (simp add: deadTransport_def)
  have "getPlayerList Map.empty secondTryTransport ?a 27015 MAX_RETRIES 0 =
      (Inr (case Some playersOld of None \<Rightarrow> [] | Some ps \<Rightarrow> ps),
       concat (replicate 1 [PlayersQuery ?a 27015 QUERY_TIMEOUT, Delay QUERY_DELAY])
         @ [PlayersQuery ?a 27015 QUERY_TIMEOUT])"
    using players_query_retries_info_query_does_not [of secondTryTransport ?a 27015 Map.empty]
      budget miss hit by blast
  moreover have "getPlayerList exCache deadTransport ?a 27015 MAX_RETRIES 0 =
      (Inr (case exCache (serverKeyOf ?a 27015) of
              None \<Rightarrow> [] | Some entry \<Rightarrow> playerList entry),
       concat (replicate MAX_RETRIES [PlayersQuery ?a 27015 QUERY_TIMEOUT, Delay QUERY_DELAY])
         @ [PlayersQuery ?a 27015 QUERY_TIMEOUT])"
    using players_query_retries_info_query_does_not [of deadTransport ?a 27015 exCache] dead
    by blast
  moreover have "snd (getServerInfo exCache deadTransport ?a 27015) =
      [InfoQuery ?a 27015 QUERY_TIMEOUT]"
    using players_query_retries_info_query_does_not [of deadTransport ?a 27015 exCache]
    by blast
  moreover have "fst (getServerInfo exCache deadTransport ?a 27015) =
      Inr (case exCache (serverKeyOf ?a 27015) of
             None \<Rightarrow> emptyInfo | Some entry \<Rightarrow> serverInfo entry)"
    using players_query_retries_info_query_does_not [of deadTransport ?a 27015 exCache] deadInfo
    by blast
  ultimately show ?thesis
    by (simp add: exKey exCache_def MAX_RETRIES_def QUERY_TIMEOUT_def QUERY_DELAY_def)
qed

text \<open>
  Claim C2 as it is stated fails for the info query: when the first call throws and a
  second call would be answered, \<open>getServerInfo\<close> makes the one call, waits for nothing
  and returns the empty fallback.
\<close>

theorem info_query_single_attempt_counterexample:
  "query_info secondTryTransport ''10.0.0.1'' 27015 QUERY_TIMEOUT 0 = Throws
   \<and> query_info secondTryTransport ''10.0.0.1'' 27015 QUERY_TIMEOUT 1 = Resolves (Some infoNew)
   \<and> 1 \<le> MAX_RETRIES
   \<and> getServerInfo Map.empty secondTryTransport ''10.0.0.1'' 27015 =
       (Inr emptyInfo, [InfoQuery ''10.0.0.1'' 27015 100])"
  by (simp add: getServerInfo_def secondTryTransport_def QUERY_TIMEOUT_def MAX_RETRIES_def)

text \<open>
  Claim C3. Neither query function throws: each returns a value. When the info call
  throws, \<open>getServerInfo\<close> returns the cached info of the server, unchanged, or the empty
  object when the server has no cache entry; when every players call of the budget
  throws, \<open>getPlayerList\<close> returns the cached player list, unchanged, or the empty list.
\<close>

theorem queries_fall_back_without_throwing:
  "(\<exists>v. fst (getServerInfo cache q addr prt) = Inr v)
   \<and> (\<exists>v. fst (getPlayerList cache q addr prt MAX_RETRIES 0) = Inr v)
   \<and> (query_info q addr prt QUERY_TIMEOUT 0 = Throws \<longrightarrow>
        fst (getServerInfo cache q addr prt) =
          Inr (case cache (serverKeyOf addr prt) of
                 None \<Rightarrow> emptyInfo | Some entry \<Rightarrow> serverInfo entry))
   \<and> ((\<forall>j\<le>MAX_RETRIES. query_players q addr prt QUERY_TIMEOUT j = Throws) \<longrightarrow>
        fst (getPlayerList cache q addr prt MAX_RETRIES 0) =
          Inr (case cache (serverKeyOf addr prt) of
                 None \<Rightarrow> [] | Some entry \<Rightarrow> playerList entry))"
proof -
  have "\<forall>j\<le>MAX_RETRIES. query_players q addr prt QUERY_TIMEOUT j = Throws \<Longrightarrow>
        fst (getPlayerList cache q addr prt MAX_RETRIES 0) =
          Inr (case cache (serverKeyOf addr prt) of
                 None \<Rightarrow> [] | Some entry \<Rightarrow> playerList entry)"
    using getPlayerList_all_throw [of MAX_RETRIES q addr prt 0 cache] by simp
  then show ?thesis
    using getServerInfo_returns getPlayerList_returns getServerInfo_throws [of q addr prt cache]
    by blast
qed

theorem queries_fall_back_without_throwing_witness:
  "fst (getServerInfo Map.empty deadTransport ''10.0.0.1'' 27015) = Inr emptyInfo
   \<and> fst (getPlayerList Map.empty deadTransport ''10.0.0.1'' 27015 MAX_RETRIES 0) = Inr []
   \<and> fst (getServerInfo exCache deadTransport ''10.0.0.1'' 27015) = Inr infoOld
   \<and> fst (getPlayerList exCache deadTransport ''10.0.0.1'' 27015 MAX_RETRIES 0) = Inr playersOld"
proof -
  let ?a = "''10.0.0.1''"
  have dead: "\<forall>j\<le>MAX_RETRIES. query_players deadTransport ?a 27015 QUERY_TIMEOUT j = Throws"
    by (simp add: deadTransport_def)
  have deadInfo: "query_info deadTransport ?a 27015 QUERY_TIMEOUT 0 = Throws"
    by (simp add: deadTransport_def)
  have "fst (getServerInfo c deadTransport ?a 27015) =
          Inr (case c (serverKeyOf ?a 27015) of
                 None \<Rightarrow> emptyInfo | Some entry \<Rightarrow> serverInfo entry)"
    and "fst (getPlayerList c deadTransport ?a 27015 MAX_RETRIES 0) =
          Inr (case c (serverKeyOf ?a 27015) of
                 None \<Rightarrow> [] | Some entry \<Rightarrow> playerList entry)" for c
    using queries_fall_back_without_throwing [of c deadTransport ?a 27015] dead deadInfo
    by blast+
  then show ?thesis
    by (simp add: exKey exCache_def)
qed

section \<open>Filter, sort and dedupe\<close>

lemma sortServers_sorted:
  "sorted_wrt (\<lambda>a b. players a \<ge> players b) (sortServers ds)"
proof -
  have "sorted (map (\<lambda>d. - players d) (sortServers ds))"
    unfolding sortServers_def by (rule sorted_sort_key)
  then show ?thesis
    by (simp add: sorted_map)
qed

lemma sortServers_stable:
  "filter (\<lambda>d. players d = k) (sortServers ds) =
     (if 0 < k \<and> k \<le> 40 then filter (\<lambda>d. players d = k) ds else [])"
proof -
  have "filter (\<lambda>d. - players d = - k) (sortServers ds) =
        filter (\<lambda>d. - players d = - k) (filter (\<lambda>d. players d > 0 \<and> players d \<le> 40) ds)"
    unfolding sortServers_def by (rule sort_key_stable)
  then have "filter (\<lambda>d. players d = k) (sortServers ds) =
        filter (\<lambda>d. players d = k \<and> 0 < players d \<and> players d \<le> 40) ds"
    by (simp add: conj_commute)
  also have "\<dots> = (if 0 < k \<and> k \<le> 40 then filter (\<lambda>d. players d = k) ds else [])"
    by (auto intro: filter_cong simp: filter_empty_conv)
  finally show ?thesis .
qed

text \<open>
  Claim C4. Of the queried servers exactly those with \<open>0 < players \<le> 40\<close> survive the
  filter, each as often as it occurs; the survivors are in descending order of
  \<open>players\<close>; and the servers with one and the same player count stand in the order
  they had in the input list.
\<close>

theorem filter_then_stable_sort:
  "mset (sortServers ds) = filter_mset (\<lambda>d. 0 < players d \<and> players d \<le> 40) (mset ds)
   \<and> sorted_wrt (\<lambda>a b. players a \<ge> players b) (sortServers ds)
   \<and> (\<forall>k. filter (\<lambda>d. players d = k) (sortServers ds) =
        (if 0 < k \<and> k \<le> 40 then filter (\<lambda>d. players d = k) ds else []))"
  using sortServers_sorted sortServers_stable
  by (simp add: sortServers_def)

theorem filter_then_stable_sort_witness:
  "map (\<lambda>d. (players d, address d))
     (sortServers
       [\<lparr>address = ''a'', port = 1, players = 0, maxPlayers = 100, name = js ''A'', sessions = []\<rparr>,
        \<lparr>address = ''b'', port = 1, players = 5, maxPlayers = 100, name = js ''B'', sessions = []\<rparr>,
        \<lparr>address = ''c'', port = 1, players = 41, maxPlayers = 100, name = js ''C'', sessions = []\<rparr>,
        \<lparr>address = ''d'', port = 1, players = 40, maxPlayers = 100, name = js ''D'', sessions = []\<rparr>,
        \<lparr>address = ''e'', port = 1, players = 40, maxPlayers = 100, name = js ''E'', sessions = []\<rparr>])
   = [(40, ''d''), (40, ''e''), (5, ''b'')]
   \<and> sorted_wrt (\<lambda>a b. players a \<ge> players b)
     (sortServers
       [\<lparr>address = ''a'', port = 1, players = 0, maxPlayers = 100, name = js ''A'', sessions = []\<rparr>,
        \<lparr>address = ''b'', port = 1, players = 5, maxPlayers = 100, name = js ''B'', sessions = []\<rparr>,
        \<lparr>address = ''c'', port = 1, players = 41, maxPlayers = 100, name = js ''C'', sessions = []\<rparr>,
        \<lparr>address = ''d'', port = 1, players = 40, maxPlayers = 100, name = js ''D'', sessions = []\<rparr>,
        \<lparr>address = ''e'', port = 1, players = 40, maxPlayers = 100, name = js ''E'', sessions = []\<rparr>])"
proof -
  let ?ds = "[\<lparr>address = ''a'', port = 1, players = 0, maxPlayers = 100, name = js ''A'', sessions = []\<rparr>,
        \<lparr>address = ''b'', port = 1, players = 5, maxPlayers = 100, name = js ''B'', sessions = []\<rparr>,
        \<lparr>address = ''c'', port = 1, players = 41, maxPlayers = 100, name = js ''C'', sessions = []\<rparr>,
        \<lparr>address = ''d'', port = 1, players = 40, maxPlayers = 100, name = js ''D'', sessions = []\<rparr>,
        \<lparr>address = ''e'', port = 1, players = 40, maxPlayers = 100, name = js ''E'', sessions = []\<rparr>]"
  have "map (\<lambda>d. (players d, address d)) (sortServers ?ds) = [(40, ''d''), (40, ''e''), (5, ''b'')]"
    by (simp add: sortServers_def)
  moreover have "sorted_wrt (\<lambda>a b. players a \<ge> players b) (sortServers ?ds)"
    using filter_then_stable_sort [of ?ds] by blast
  ultimately show ?thesis by blast
qed






section \<open>The player block\<close>

lemma trim_Nil_iff: "trim s = [] \<longleftrightarrow> (\<forall>c\<in>set s. isSpace c)"
proof
  assume "trim s = []"
  then have "\<forall>c\<in>set (dropWhile isSpace s). isSpace c"
    by (simp add: trim_def dropWhile_eq_Nil_conv)
  then have "dropWhile isSpace s = []"
    using hd_dropWhile [of isSpace s] by (cases "dropWhile isSpace s") auto
  then show "\<forall>c\<in>set s. isSpace c"
    by (simp add: dropWhile_eq_Nil_conv)
next
  assume "\<forall>c\<in>set s. isSpace c"
  then have d: "dropWhile isSpace s = []"
    by (simp add: dropWhile_eq_Nil_conv)
  show "trim s = []"
    unfolding trim_def d by simp
qed

lemma hasName_blank:
  "hasName p \<longleftrightarrow> \<not> (case player_name p of None \<Rightarrow> True | Some n \<Rightarrow> \<forall>c\<in>set n. isSpace c)"
  by (auto simp: hasName_def trim_Nil_iff split: option.splits)

lemma join_last:
  "xs \<noteq> [] \<Longrightarrow> \<forall>x\<in>set xs. x \<noteq> [] \<and> last x = c \<Longrightarrow>
   join sep xs \<noteq> [] \<and> last (join sep xs) = c"
  by (induction sep xs rule: join.induct) auto

lemma formatPlayer_last: "formatPlayer p \<noteq> [] \<and> last (formatPlayer p) = 0x29"
  by (simp add: formatPlayer_def Let_def js_def)

lemma block_not_placeholder:
  assumes "length ps \<le> 40"
  shows "formatPlayerListEmbed ps \<noteq> placeholder"
proof (cases "filter hasName ps = []")
  case True
  then show ?thesis using assms by (simp add: formatPlayerListEmbed_def placeholder_def js_def)
next
  case False
  then have "map formatPlayer (filter hasName ps) \<noteq> []" by simp
  moreover have "\<forall>x\<in>set (map formatPlayer (filter hasName ps)). x \<noteq> [] \<and> last x = 0x29"
    using formatPlayer_last by auto
  ultimately have "last (join [0x0A] (map formatPlayer (filter hasName ps))) = 0x29"
    using join_last by blast
  moreover have "last placeholder = 0x2E"
    by (simp add: placeholder_def js_def)
  ultimately show ?thesis using assms
    by (auto simp: formatPlayerListEmbed_def)
qed

text \<open>
  Claim C6. The player block is the placeholder exactly when the player-session list
  has more than 40 entries; \<open>formatPlayerListEmbed\<close> sees nothing but that list. For
  such a list the description handed to the builder is the header followed by the
  placeholder, whatever the \<open>players\<close> field \<open>n\<close> of the server is, and an embed that
  \<open>createEmbedsForServer\<close> returns is this one.
\<close>

theorem placeholder_by_list_length:
  "(formatPlayerListEmbed ps = placeholder \<longleftrightarrow> length ps > 40) \<and>
   (length ps > 40 \<longrightarrow>
      embedFor \<lparr>address = a, port = p, players = n, maxPlayers = m, name = t, sessions = ps\<rparr> =
        \<lparr>title = t,
         description = js ''Spieler: '' @ js (show_int n) @ js ''/'' @ js (show_int m)
           @ [0x0A, 0x0A] @ placeholder\<rparr>
      \<and> (\<forall>es. createEmbedsForServer
             \<lparr>address = a, port = p, players = n, maxPlayers = m, name = t, sessions = ps\<rparr>
               = Inr es \<longrightarrow>
            es = [\<lparr>title = t,
                   description = js ''Spieler: '' @ js (show_int n) @ js ''/'' @ js (show_int m)
                     @ [0x0A, 0x0A] @ placeholder\<rparr>]))"
proof -
  have "formatPlayerListEmbed ps = placeholder \<longleftrightarrow> length ps > 40"
    using block_not_placeholder [of ps] by (auto simp: formatPlayerListEmbed_def)
  then show ?thesis
    by (auto simp: createEmbedsForServer_def embedFor_def split: if_splits)
qed

theorem placeholder_by_list_length_witness:
  "length (replicate 41 \<lparr>player_name = Some (js ''Bob''), player_duration = Whole 125\<rparr>) > 40
   \<and> formatPlayerListEmbed
        (replicate 41 \<lparr>player_name = Some (js ''Bob''), player_duration = Whole 125\<rparr>)
       = js ''Mehr als 40 Spieler - Liste deaktiviert.''
   \<and> createEmbedsForServer
        \<lparr>address = ''10.0.0.1'', port = 27015, players = 3, maxPlayers = 100,
         name = js ''GER One'',
         sessions = replicate 41 \<lparr>player_name = Some (js ''Bob''), player_duration = Whole 125\<rparr>\<rparr> =
      Inr [\<lparr>title = js ''GER One'',
            description = js ''Spieler: 3/100'' @ [0x0A, 0x0A]
              @ js ''Mehr als 40 Spieler - Liste deaktiviert.''\<rparr>]"
proof -
  let ?ps = "replicate 41 \<lparr>player_name = Some (js ''Bob''), player_duration = Whole 125\<rparr>"
  let ?d = "\<lparr>address = ''10.0.0.1'', port = 27015, players = 3, maxPlayers = 100,
         name = js ''GER One'', sessions = ?ps\<rparr>"
  have len: "length ?ps > 40" by simp
  from len placeholder_by_list_length [of ?ps "''10.0.0.1''" 27015 3 100 "js ''GER One''"]
  have block: "formatPlayerListEmbed ?ps = placeholder"
    and handed: "embedFor ?d =
      \<lparr>title = js ''GER One'',
       description = js ''Spieler: '' @ js (show_int 3) @ js ''/'' @ js (show_int 100)
         @ [0x0A, 0x0A] @ placeholder\<rparr>"
    by blast+
  have "createEmbedsForServer ?d = Inr [embedFor ?d]"
    unfolding createEmbedsForServer_def handed
    by (simp add: accepted_def placeholder_def show_int_examples js_def)
  with handed block len show ?thesis
    by (simp add: placeholder_def show_int_examples js_def)
qed

text \<open>
  Claim C10. The length test comes before the filter on names. When every name of the
  list is blank (absent, empty or nothing but white space, as \<open>trim()\<close> sees it), the
  block is the placeholder if the list has more than 40 entries and is empty
  otherwise; in the second case the description handed to the builder is the header
  line and the two line breaks, nothing more, and an embed that
  \<open>createEmbedsForServer\<close> returns has this description.
\<close>

theorem blank_names_after_length_check:
  assumes "\<forall>p\<in>set ps. case player_name p of None \<Rightarrow> True | Some n \<Rightarrow> \<forall>c\<in>set n. isSpace c"
  shows "formatPlayerListEmbed ps = (if length ps > 40 then placeholder else [])
    \<and> (length ps \<le> 40 \<longrightarrow>
         embedFor \<lparr>address = a, port = p, players = n, maxPlayers = m, name = t, sessions = ps\<rparr> =
           \<lparr>title = t,
            description = js ''Spieler: '' @ js (show_int n) @ js ''/'' @ js (show_int m)
              @ [0x0A, 0x0A]\<rparr>
         \<and> (\<forall>es. createEmbedsForServer
                \<lparr>address = a, port = p, players = n, maxPlayers = m, name = t, sessions = ps\<rparr>
                  = Inr es \<longrightarrow>
               es = [\<lparr>title = t,
                      description = js ''Spieler: '' @ js (show_int n) @ js ''/''
                        @ js (show_int m) @ [0x0A, 0x0A]\<rparr>]))"
proof -
  have "filter hasName ps = []"
    using assms by (simp add: filter_empty_conv hasName_blank)
  then have "formatPlayerListEmbed ps = (if length ps > 40 then placeholder else [])"
    by (simp add: formatPlayerListEmbed_def)
  then show ?thesis
    by (auto simp: createEmbedsForServer_def embedFor_def split: if_splits)
qed

theorem blank_names_after_length_check_witness:
  "formatPlayerListEmbed
     (replicate 41 \<lparr>player_name = Some [0xA0, 0x3000, 0x20], player_duration = NoNumber\<rparr>)
     = js ''Mehr als 40 Spieler - Liste deaktiviert.''
   \<and> formatPlayerListEmbed
     (replicate 40 \<lparr>player_name = Some [0xA0, 0x3000, 0x20], player_duration = NoNumber\<rparr>) = []
   \<and> createEmbedsForServer
        \<lparr>address = ''10.0.0.1'', port = 27015, players = 40, maxPlayers = 100,
         name = js ''GER One'',
         sessions = replicate 40
           \<lparr>player_name = Some [0xA0, 0x3000, 0x20], player_duration = NoNumber\<rparr>\<rparr> =
      Inr [\<lparr>title = js ''GER One'', description = js ''Spieler: 40/100'' @ [0x0A, 0x0A]\<rparr>]"
proof -
  let ?b = "\<lparr>player_name = Some [0xA0, 0x3000, 0x20], player_duration = NoNumber\<rparr>"
  let ?d = "\<lparr>address = ''10.0.0.1'', port = 27015, players = 40, maxPlayers = 100,
         name = js ''GER One'', sessions = replicate 40 ?b\<rparr>"
  have blank: "\<forall>p\<in>set (replicate k ?b).
      case player_name p of None \<Rightarrow> True | Some n \<Rightarrow> \<forall>c\<in>set n. isSpace c" for k
    by (simp add: isSpace_def)
  have long: "formatPlayerListEmbed (replicate 41 ?b) = placeholder"
    using blank_names_after_length_check [OF blank [of 41]] by simp
  have short: "formatPlayerListEmbed (replicate 40 ?b) = []"
    using blank_names_after_length_check [OF blank [of 40]] by simp
  have handed: "embedFor ?d =
      \<lparr>title = js ''GER One'',
       description = js ''Spieler: '' @ js (show_int 40) @ js ''/'' @ js (show_int 100)
         @ [0x0A, 0x0A]\<rparr>"
    using blank_names_after_length_check
      [OF blank [of 40], of "''10.0.0.1''" 27015 40 100 "js ''GER One''"]
    by simp
  have "createEmbedsForServer ?d = Inr [embedFor ?d]"
    unfolding createEmbedsForServer_def handed
    by (simp add: accepted_def show_int_examples js_def)
  with handed long short show ?thesis
    by (simp add: placeholder_def show_int_examples js_def)
qed

section \<open>Reconciling the slots\<close>

lemma reconcileSlots_length:
  "reconcileSlots ch prev i es nm ops = (Inr ms, ops') \<Longrightarrow> length ms = length nm + length es"
proof (induction es arbitrary: i nm ops)
  case Nil
  then show ?case by simp
next
  case (Cons e es)
  from Cons.prems show ?case
    by (auto split: if_splits option.splits dest!: Cons.IH)
qed

text \<open>The first loop runs to its end exactly when every send it makes resolves.\<close>

lemma reconcileSlots_completes_iff:
  "(\<exists>ms ops'. reconcileSlots ch prev i es nm ops = (Inr ms, ops')) \<longleftrightarrow>
   (\<forall>j. i \<le> j \<and> j < i + length es \<longrightarrow>
      (j < length prev \<and> messages_fetch ch j \<and> msg_edit ch j) \<or> send ch j \<noteq> None)"
proof (induction es arbitrary: i nm ops)
  case Nil
  then show ?case by auto
next
  case (Cons e es)
  have split: "(\<forall>j. i \<le> j \<and> j < i + length (e # es) \<longrightarrow> P j) \<longleftrightarrow>
      P i \<and> (\<forall>j. Suc i \<le> j \<and> j < Suc i + length es \<longrightarrow> P j)" for P
  proof -
    have "i \<le> j \<longleftrightarrow> j = i \<or> Suc i \<le> j" for j by arith
    then show ?thesis by auto
  qed
  show ?case
    unfolding split
    by (auto simp: Cons.IH split: option.splits)
qed

lemma reconcileSlots_idem:
  "i + length es \<le> length prev \<Longrightarrow>
   \<forall>j. i \<le> j \<and> j < i + length es \<longrightarrow> messages_fetch ch j \<and> msg_edit ch j \<Longrightarrow>
   reconcileSlots ch prev i es nm ops =
     (Inr (nm @ take (length es) (drop i prev)),
      ops @ map (\<lambda>(m, e). Edit m e) (zip (drop i prev) es))"
proof (induction es arbitrary: i nm ops)
  case Nil
  then show ?case by simp
next
  case (Cons e es)
  from Cons.prems have i: "i < length prev" by simp
  then have d: "drop i prev = prev ! i # drop (Suc i) prev"
    by (simp add: Cons_nth_drop_Suc)
  from Cons.prems have ok: "messages_fetch ch i \<and> msg_edit ch i" by simp
  from Cons.prems have a: "Suc i + length es \<le> length prev" by simp
  from Cons.prems
  have b: "\<forall>j. Suc i \<le> j \<and> j < Suc i + length es \<longrightarrow> messages_fetch ch j \<and> msg_edit ch j"
    by simp
  show ?case
    using i ok by (simp add: Cons.IH [OF a b] d)
qed

lemma reconcileSlots_total:
  "reconcileSlots ch prev i es nm ops = (Inr ms, ops') \<Longrightarrow>
   length (filter is_Send ops') + length (filter is_Edit ops') =
     length (filter is_Send ops) + length (filter is_Edit ops) + length es"
proof (induction es arbitrary: i nm ops)
  case Nil
  then show ?case by simp
next
  case (Cons e es)
  from Cons.prems show ?case
    by (auto split: if_splits option.splits dest!: Cons.IH)
qed

lemma reconcileSlots_edits_le:
  "reconcileSlots ch prev i es nm ops = (Inr ms, ops') \<Longrightarrow>
   length (filter is_Edit ops')
     \<le> length (filter is_Edit ops) + (min (i + length es) (length prev) - i)"
proof (induction es arbitrary: i nm ops)
  case Nil
  then show ?case by simp
next
  case (Cons e es)
  from Cons.prems show ?case
    by (auto split: if_splits option.splits dest!: Cons.IH)
qed

lemma reconcileSlots_edits_exact:
  "reconcileSlots ch prev i es nm ops = (Inr ms, ops') \<Longrightarrow>
   length (filter is_Edit ops') = length (filter is_Edit ops)
     + length (filter (\<lambda>j. messages_fetch ch j \<and> msg_edit ch j)
         [i ..< min (i + length es) (length prev)])"
proof (induction es arbitrary: i nm ops)
  case Nil
  then show ?case by simp
next
  case (Cons e es)
  show ?case
  proof (cases "i < length prev")
    case True
    then have u: "[i ..< min (i + length (e # es)) (length prev)]
        = i # [Suc i ..< min (Suc i + length es) (length prev)]"
      by (simp add: upt_conv_Cons)
    from True Cons.prems show ?thesis
      unfolding u by (auto split: if_splits option.splits dest!: Cons.IH)
  next
    case False
    with Cons.prems show ?thesis
      by (auto split: option.splits dest!: Cons.IH)
  qed
qed

lemma reconcileSlots_edits_eq:
  "reconcileSlots ch prev i es nm ops = (Inr ms, ops') \<Longrightarrow>
   \<forall>j. i \<le> j \<and> j < i + length es \<and> j < length prev \<longrightarrow>
       messages_fetch ch j \<and> msg_edit ch j \<Longrightarrow>
   length (filter is_Edit ops')
     = length (filter is_Edit ops) + (min (i + length es) (length prev) - i)"
proof (induction es arbitrary: i nm ops)
  case Nil
  then show ?case by simp
next
  case (Cons e es)
  from Cons.prems(2)
  have b: "\<forall>j. Suc i \<le> j \<and> j < Suc i + length es \<and> j < length prev \<longrightarrow>
      messages_fetch ch j \<and> msg_edit ch j"
    by simp
  show ?case
  proof (cases "i < length prev")
    case True
    with Cons.prems(2) have ok: "messages_fetch ch i \<and> msg_edit ch i" by simp
    with True Cons.prems(1) have
      "reconcileSlots ch prev (Suc i) es (nm @ [prev ! i]) (ops @ [Edit (prev ! i) e])
         = (Inr ms, ops')"
      by simp
    from Cons.IH [OF this b] True show ?thesis by (auto simp: min_def)
  next
    case False
    with Cons.prems(1) obtain m where
      "reconcileSlots ch prev (Suc i) es (nm @ [m]) (ops @ [Send e m]) = (Inr ms, ops')"
      by (auto split: option.splits)
    from Cons.IH [OF this b] False show ?thesis by (auto simp: min_def)
  qed
qed

lemma reconcileSlots_prefix:
  "reconcileSlots ch prev i es nm ops = (Inr ms, ops') \<Longrightarrow>
   (\<exists>ms2. ms = nm @ ms2) \<and> (\<exists>ops2. ops' = ops @ ops2)"
proof (induction es arbitrary: i nm ops)
  case Nil
  then show ?case by simp
next
  case (Cons e es)
  from Cons.prems show ?case
    by (auto split: if_splits option.splits dest!: Cons.IH)
qed

text \<open>At an index at or beyond the previous list the loop sends, and stores the new id.\<close>

lemma reconcileSlots_creates_at:
  "reconcileSlots ch prev i es nm ops = (Inr ms, ops') \<Longrightarrow> j < length es \<Longrightarrow>
   length prev \<le> i + j \<Longrightarrow>
   \<exists>m. send ch (i + j) = Some m \<and> ms ! (length nm + j) = m \<and> Send (es ! j) m \<in> set ops'"
proof (induction es arbitrary: i nm ops j)
  case Nil
  then show ?case by simp
next
  case (Cons e es)
  show ?case
  proof (cases j)
    case 0
    with Cons.prems have beyond: "\<not> i < length prev" by simp
    with Cons.prems(1) obtain m where m: "send ch i = Some m"
      and rest: "reconcileSlots ch prev (Suc i) es (nm @ [m]) (ops @ [Send e m]) = (Inr ms, ops')"
      by (auto split: option.splits)
    from reconcileSlots_prefix [OF rest] obtain ms2 ops2
      where "ms = (nm @ [m]) @ ms2" and "ops' = (ops @ [Send e m]) @ ops2"
      by blast
    then have "ms ! length nm = m" and "Send e m \<in> set ops'"
      by (simp_all add: nth_append)
    with m 0 show ?thesis by simp
  next
    case (Suc j')
    from Cons.prems(1) obtain nm' ops1 where
      rest: "reconcileSlots ch prev (Suc i) es nm' ops1 = (Inr ms, ops')"
      and nm': "length nm' = Suc (length nm)"
      by (auto split: if_splits option.splits)
    from Suc Cons.prems have "j' < length es" "length prev \<le> Suc i + j'" by simp_all
    from Cons.IH [OF rest this] nm' Suc show ?thesis by simp
  qed
qed

lemma reconcileSlots_no_delete:
  "reconcileSlots ch prev i es nm ops = (r, ops') \<Longrightarrow>
   filter (\<lambda>x. is_Delete x \<or> is_DeleteFailed x) ops'
     = filter (\<lambda>x. is_Delete x \<or> is_DeleteFailed x) ops"
proof (induction es arbitrary: i nm ops)
  case Nil
  then show ?case by simp
next
  case (Cons e es)
  from Cons.prems show ?case
    by (auto split: if_splits option.splits dest!: Cons.IH)
qed

lemma deleteLeftovers_ops:
  "filter is_Send (deleteLeftovers ch prev n) = []"
  "filter is_Edit (deleteLeftovers ch prev n) = []"
  "filter (\<lambda>x. is_Delete x \<or> is_DeleteFailed x) (deleteLeftovers ch prev n)
     = deleteLeftovers ch prev n"
  "length (deleteLeftovers ch prev n) = length prev - n"
  by (auto simp: deleteLeftovers_def filter_empty_conv filter_id_conv)

lemma deleteLeftovers_at:
  "n \<le> i \<Longrightarrow> i < length prev \<Longrightarrow>
   (if messages_fetch ch i \<and> msg_delete ch i then Delete (prev ! i) else DeleteFailed (prev ! i))
     \<in> set (deleteLeftovers ch prev n)"
  by (auto simp: deleteLeftovers_def)

lemma reconcileChannel_completes:
  assumes "cl c = Resolves (Some ch)"
    and "\<forall>i<length items. (i < length (slotsOf lm c) \<and> messages_fetch ch i \<and> msg_edit ch i)
           \<or> send ch i \<noteq> None"
  obtains ms ops where "reconcileSlots ch (slotsOf lm c) 0 items [] [] = (Inr ms, ops)"
    and "reconcileChannel cl items c lm =
           (lm(c \<mapsto> ms), ops @ deleteLeftovers ch (slotsOf lm c) (length items))"
proof -
  from assms(2) have "\<exists>ms ops. reconcileSlots ch (slotsOf lm c) 0 items [] [] = (Inr ms, ops)"
    by (simp add: reconcileSlots_completes_iff)
  then obtain ms ops where r: "reconcileSlots ch (slotsOf lm c) 0 items [] [] = (Inr ms, ops)"
    by blast
  with assms(1) have "reconcileChannel cl items c lm =
           (lm(c \<mapsto> ms), ops @ deleteLeftovers ch (slotsOf lm c) (length items))"
    by (simp add: reconcileChannel_def)
  with r that show thesis by blast
qed

lemma reconcileChannel_other:
  "c' \<noteq> c \<Longrightarrow> fst (reconcileChannel cl items c' lm) c = lm c"
  by (auto simp: reconcileChannel_def Let_def
      split: reply.splits option.splits prod.splits sum.splits)

lemma reconcileChannels_Cons:
  "reconcileChannels cl items (c # cs) lm =
     (fst (reconcileChannels cl items cs (fst (reconcileChannel cl items c lm))),
      snd (reconcileChannel cl items c lm)
        @ snd (reconcileChannels cl items cs (fst (reconcileChannel cl items c lm))))"
  by (simp split: prod.splits)

lemma reconcileChannels_other:
  "c \<notin> set cs \<Longrightarrow> fst (reconcileChannels cl items cs lm) c = lm c"
proof (induction cs arbitrary: lm)
  case Nil
  then show ?case by simp
next
  case (Cons c' cs)
  then have ne: "c' \<noteq> c" and ni: "c \<notin> set cs" by auto
  have "fst (reconcileChannels cl items cs (fst (reconcileChannel cl items c' lm))) c =
      fst (reconcileChannel cl items c' lm) c"
    by (rule Cons.IH [OF ni])
  also have "\<dots> = lm c"
    by (rule reconcileChannel_other [OF ne])
  finally show ?case
    by (simp only: reconcileChannels_Cons fst_conv)
qed

text \<open>
  Claim C7. Let a first pass over a channel run to its end (the channel is fetched and
  every send the pass makes resolves), and let a second pass with the same embeds start
  from the slot list the first one stored, on a channel that is fetched and where
  every fetch and edit of a message resolves. Then the stored list \<open>ms\<close> has one slot
  per embed, the second pass does nothing but edit slot \<open>i\<close> with embed \<open>i\<close>, and it
  leaves the remembered slot lists as they were.
\<close>

theorem reconciliation_idempotent:
  assumes "cl1 c = Resolves (Some ch1)"
    and "\<forall>i<length items. (i < length (slotsOf lm c) \<and> messages_fetch ch1 i \<and> msg_edit ch1 i)
           \<or> send ch1 i \<noteq> None"
    and "cl2 c = Resolves (Some ch2)"
    and "\<forall>i<length items. messages_fetch ch2 i \<and> msg_edit ch2 i"
  shows "\<exists>ms. fst (reconcileChannel cl1 items c lm) c = Some ms \<and> length ms = length items
     \<and> reconcileChannel cl2 items c (fst (reconcileChannel cl1 items c lm)) =
         (fst (reconcileChannel cl1 items c lm), map (\<lambda>(m, e). Edit m e) (zip ms items))"
proof -
  from assms(1,2) obtain ms ops where
    r: "reconcileSlots ch1 (slotsOf lm c) 0 items [] [] = (Inr ms, ops)" and
    c1: "reconcileChannel cl1 items c lm =
           (lm(c \<mapsto> ms), ops @ deleteLeftovers ch1 (slotsOf lm c) (length items))"
    by (rule reconcileChannel_completes)
  from r have len: "length ms = length items"
    using reconcileSlots_length by fastforce
  let ?lm1 = "lm(c \<mapsto> ms)"
  have s: "slotsOf ?lm1 c = ms" by (simp add: slotsOf_def)
  have "reconcileSlots ch2 ms 0 items [] [] =
      (Inr ([] @ take (length items) (drop 0 ms)),
       [] @ map (\<lambda>(m, e). Edit m e) (zip (drop 0 ms) items))"
    using assms(4) len by (intro reconcileSlots_idem) auto
  then have r2: "reconcileSlots ch2 ms 0 items [] [] =
      (Inr ms, map (\<lambda>(m, e). Edit m e) (zip ms items))"
    using len by simp
  have "deleteLeftovers ch2 ms (length items) = []"
    using len by (simp add: deleteLeftovers_def)
  with r2 assms(3) s have "reconcileChannel cl2 items c ?lm1 =
      (?lm1, map (\<lambda>(m, e). Edit m e) (zip ms items))"
    by (simp add: reconcileChannel_def)
  with c1 len show ?thesis by simp
qed

theorem reconciliation_idempotent_witness:
  "fst (reconcileChannel okDiscord [exEmbed 0, exEmbed 1] ''chan1'' exSlots) ''chan1''
     = Some [''old0'', ''new1'']
   \<and> reconcileChannel okDiscord [exEmbed 0, exEmbed 1] ''chan1''
        (fst (reconcileChannel okDiscord [exEmbed 0, exEmbed 1] ''chan1'' exSlots))
     = (fst (reconcileChannel okDiscord [exEmbed 0, exEmbed 1] ''chan1'' exSlots),
        [Edit ''old0'' (exEmbed 0), Edit ''new1'' (exEmbed 1)])"
proof -
  let ?items = "[exEmbed 0, exEmbed 1]"
  have first: "fst (reconcileChannel okDiscord ?items ''chan1'' exSlots) ''chan1''
      = Some [''old0'', ''new1'']"
    by (simp add: reconcileChannel_def okDiscord_def okChannel_def exSlots_def slotsOf_def
        show_nat_examples)
  have fetched: "okDiscord ''chan1'' = Resolves (Some okChannel)"
    by (simp add: okDiscord_def)
  have sends: "\<forall>i<length ?items.
      (i < length (slotsOf exSlots ''chan1'') \<and> messages_fetch okChannel i \<and> msg_edit okChannel i)
      \<or> send okChannel i \<noteq> None"
    by (simp add: okChannel_def)
  have edits: "\<forall>i<length ?items. messages_fetch okChannel i \<and> msg_edit okChannel i"
    by (simp add: okChannel_def)
  from reconciliation_idempotent
    [of okDiscord "''chan1''" okChannel ?items exSlots okDiscord okChannel,
     OF fetched sends fetched edits]
  obtain ms where ms: "fst (reconcileChannel okDiscord ?items ''chan1'' exSlots) ''chan1'' = Some ms"
    and again: "reconcileChannel okDiscord ?items ''chan1''
        (fst (reconcileChannel okDiscord ?items ''chan1'' exSlots))
      = (fst (reconcileChannel okDiscord ?items ''chan1'' exSlots),
         map (\<lambda>(m, e). Edit m e) (zip ms ?items))"
    by blast
  from ms first have "ms = [''old0'', ''new1'']" by simp
  with again first show ?thesis by simp
qed

text \<open>
  Claim C8, amended. After a pass over a channel that was fetched and in which every
  send the pass made resolved, the remembered slot list of the channel has one slot
  per embed; at every index at or beyond the length of the previous list a message
  was created and its id stored; every index of the embeds is one edit or one
  create, with as many edits as there are kept slots whose fetch and edit resolve; and
  one delete is
  attempted for each previous slot beyond the embeds, \<open>previous length - number of
  embeds\<close> in all (shrinkage from \<open>N\<close> to \<open>N - 2\<close>: 2 attempts). When moreover the
  fetch and the edit of every kept slot resolve, there are exactly
  \<open>min (previous length) (number of embeds)\<close> edits and
  \<open>number of embeds - previous length\<close> creates (growth from \<open>N\<close> to \<open>N + 2\<close>: 2
  creates and \<open>N\<close> edits; shrinkage from \<open>N\<close> to \<open>N - 2\<close>: \<open>N - 2\<close> edits and no
  create).
\<close>

theorem completed_pass_slot_counts:
  assumes "cl c = Resolves (Some ch)"
    and "\<forall>i<length items. (i < length (slotsOf lm c) \<and> messages_fetch ch i \<and> msg_edit ch i)
           \<or> send ch i \<noteq> None"
  shows "(\<exists>ms. fst (reconcileChannel cl items c lm) c = Some ms \<and> length ms = length items
           \<and> (\<forall>i<length items. length (slotsOf lm c) \<le> i \<longrightarrow>
                 send ch i = Some (ms ! i)
                 \<and> Send (items ! i) (ms ! i) \<in> set (snd (reconcileChannel cl items c lm))))
     \<and> length (filter is_Send (snd (reconcileChannel cl items c lm)))
         + length (filter is_Edit (snd (reconcileChannel cl items c lm))) = length items
     \<and> length (filter is_Edit (snd (reconcileChannel cl items c lm)))
         \<le> min (length (slotsOf lm c)) (length items)
     \<and> length (filter is_Edit (snd (reconcileChannel cl items c lm)))
         = length (filter (\<lambda>i. messages_fetch ch i \<and> msg_edit ch i)
             [0 ..< min (length (slotsOf lm c)) (length items)])
     \<and> ((\<forall>i<min (length (slotsOf lm c)) (length items). messages_fetch ch i \<and> msg_edit ch i) \<longrightarrow>
          length (filter is_Edit (snd (reconcileChannel cl items c lm)))
            = min (length (slotsOf lm c)) (length items)
          \<and> length (filter is_Send (snd (reconcileChannel cl items c lm)))
            = length items - length (slotsOf lm c))
     \<and> length (filter (\<lambda>x. is_Delete x \<or> is_DeleteFailed x)
                 (snd (reconcileChannel cl items c lm)))
         = length (slotsOf lm c) - length items
     \<and> (\<forall>i. length items \<le> i \<and> i < length (slotsOf lm c) \<longrightarrow>
          (if messages_fetch ch i \<and> msg_delete ch i
           then Delete (slotsOf lm c ! i) else DeleteFailed (slotsOf lm c ! i))
            \<in> set (snd (reconcileChannel cl items c lm)))"
proof -
  let ?prev = "slotsOf lm c"
  from assms obtain ms ops where
    r: "reconcileSlots ch ?prev 0 items [] [] = (Inr ms, ops)" and
    c1: "reconcileChannel cl items c lm =
           (lm(c \<mapsto> ms), ops @ deleteLeftovers ch ?prev (length items))"
    by (rule reconcileChannel_completes)
  let ?all = "ops @ deleteLeftovers ch ?prev (length items)"
  from r have len: "length ms = length items"
    using reconcileSlots_length by fastforce
  have created: "send ch i = Some (ms ! i) \<and> Send (items ! i) (ms ! i) \<in> set ?all"
    if "i < length items" "length ?prev \<le> i" for i
    using reconcileSlots_creates_at [OF r, of i] that by auto
  have e: "length (filter is_Edit ?all) = length (filter is_Edit ops)"
    and s: "length (filter is_Send ?all) = length (filter is_Send ops)"
    by (simp_all add: deleteLeftovers_ops)
  have total: "length (filter is_Send ops) + length (filter is_Edit ops) = length items"
    using reconcileSlots_total [OF r] by simp
  have le: "length (filter is_Edit ops) \<le> min (length ?prev) (length items)"
    using reconcileSlots_edits_le [OF r] by (simp add: min.commute)
  have exact: "length (filter is_Edit ops)
      = length (filter (\<lambda>i. messages_fetch ch i \<and> msg_edit ch i)
          [0 ..< min (length ?prev) (length items)])"
    using reconcileSlots_edits_exact [OF r] by (simp add: min.commute)
  have eq: "length (filter is_Edit ops) = min (length ?prev) (length items)"
    if "\<forall>i<min (length ?prev) (length items). messages_fetch ch i \<and> msg_edit ch i"
    using reconcileSlots_edits_eq [OF r] that by (simp add: min.commute)
  have del: "length (filter (\<lambda>x. is_Delete x \<or> is_DeleteFailed x) ?all)
      = length ?prev - length items"
    using reconcileSlots_no_delete [OF r] by (simp add: deleteLeftovers_ops)
  have sends: "length (filter is_Send ops) = length items - length ?prev"
    if "\<forall>i<min (length ?prev) (length items). messages_fetch ch i \<and> msg_edit ch i"
    using total eq [OF that] by (simp add: min_def split: if_splits)
  have deleted: "(if messages_fetch ch i \<and> msg_delete ch i
           then Delete (?prev ! i) else DeleteFailed (?prev ! i)) \<in> set ?all"
    if "length items \<le> i" "i < length ?prev" for i
    using deleteLeftovers_at [OF that, of ch] by simp
  have first: "\<exists>ms'. fst (lm(c \<mapsto> ms), ?all) c = Some ms' \<and> length ms' = length items
           \<and> (\<forall>i<length items. length ?prev \<le> i \<longrightarrow>
                 send ch i = Some (ms' ! i) \<and> Send (items ! i) (ms' ! i) \<in> set (snd (lm(c \<mapsto> ms), ?all)))"
    using len created by simp
  show ?thesis
    unfolding c1
    using first total le exact eq sends del deleted
    by (simp only: snd_conv e s) blast
qed

theorem completed_pass_slot_counts_witness:
  "length (filter is_Send
     (snd (reconcileChannel okDiscord [exEmbed 0, exEmbed 1, exEmbed 2] ''chan1'' exSlots))) = 2
   \<and> length (filter is_Edit
     (snd (reconcileChannel okDiscord [exEmbed 0, exEmbed 1, exEmbed 2] ''chan1'' exSlots))) = 1
   \<and> fst (reconcileChannel okDiscord [exEmbed 0, exEmbed 1, exEmbed 2] ''chan1'' exSlots) ''chan1''
       = Some [''old0'', ''new1'', ''new2'']
   \<and> length (filter is_Send
     (snd (reconcileChannel okDiscord [exEmbed 0] ''chan1'' exSlots3))) = 0
   \<and> length (filter is_Edit
     (snd (reconcileChannel okDiscord [exEmbed 0] ''chan1'' exSlots3))) = 1
   \<and> length (filter (\<lambda>x. is_Delete x \<or> is_DeleteFailed x)
     (snd (reconcileChannel okDiscord [exEmbed 0] ''chan1'' exSlots3))) = 2
   \<and> fst (reconcileChannel okDiscord [exEmbed 0] ''chan1'' exSlots3) ''chan1'' = Some [''old0'']
   \<and> length (filter is_Edit
     (snd (reconcileChannel noEditDiscord [exEmbed 0] ''chan1'' exSlots3))) = 0
   \<and> length (filter is_Send
     (snd (reconcileChannel noEditDiscord [exEmbed 0] ''chan1'' exSlots3))) = 1"
proof -
  have fetchedNoEdit: "noEditDiscord ''chan1'' = Resolves (Some noEditChannel)"
    by (simp add: noEditDiscord_def)
  have sendsNoEdit: "\<forall>i<length [exEmbed 0].
      (i < length (slotsOf exSlots3 ''chan1'') \<and> messages_fetch noEditChannel i
         \<and> msg_edit noEditChannel i)
      \<or> send noEditChannel i \<noteq> None"
    by (simp add: noEditChannel_def)
  have failedEdit: "length (filter is_Edit
       (snd (reconcileChannel noEditDiscord [exEmbed 0] ''chan1'' exSlots3))) = 0
     \<and> length (filter is_Send
       (snd (reconcileChannel noEditDiscord [exEmbed 0] ''chan1'' exSlots3))) = 1"
    using completed_pass_slot_counts
      [of noEditDiscord "''chan1''" noEditChannel "[exEmbed 0]" exSlots3,
       OF fetchedNoEdit sendsNoEdit]
    by (auto simp: slotsOf_def exSlots3_def noEditChannel_def)
  have fetched: "okDiscord ''chan1'' = Resolves (Some okChannel)"
    by (simp add: okDiscord_def)
  have sends: "\<forall>i<length items.
      (i < length (slotsOf lm ''chan1'') \<and> messages_fetch okChannel i \<and> msg_edit okChannel i)
      \<or> send okChannel i \<noteq> None" for items :: "embed list" and lm
    by (simp add: okChannel_def)
  note grown = completed_pass_slot_counts
    [of okDiscord "''chan1''" okChannel "[exEmbed 0, exEmbed 1, exEmbed 2]" exSlots,
     OF fetched sends]
  note shrunk = completed_pass_slot_counts
    [of okDiscord "''chan1''" okChannel "[exEmbed 0]" exSlots3, OF fetched sends]
  have grow: "length (filter is_Send
       (snd (reconcileChannel okDiscord [exEmbed 0, exEmbed 1, exEmbed 2] ''chan1'' exSlots))) = 2
     \<and> length (filter is_Edit
       (snd (reconcileChannel okDiscord [exEmbed 0, exEmbed 1, exEmbed 2] ''chan1'' exSlots))) = 1"
    using grown
    by (simp add: slotsOf_def exSlots_def okChannel_def)
  have shrink: "length (filter is_Send
       (snd (reconcileChannel okDiscord [exEmbed 0] ''chan1'' exSlots3))) = 0
     \<and> length (filter is_Edit
       (snd (reconcileChannel okDiscord [exEmbed 0] ''chan1'' exSlots3))) = 1
     \<and> length (filter (\<lambda>x. is_Delete x \<or> is_DeleteFailed x)
       (snd (reconcileChannel okDiscord [exEmbed 0] ''chan1'' exSlots3))) = 2"
    using shrunk
    by (simp add: slotsOf_def exSlots3_def okChannel_def)
  have "fst (reconcileChannel okDiscord [exEmbed 0, exEmbed 1, exEmbed 2] ''chan1'' exSlots) ''chan1''
       = Some [''old0'', ''new1'', ''new2'']"
    by (simp add: reconcileChannel_def okDiscord_def okChannel_def exSlots_def slotsOf_def
        show_nat_examples)
  moreover have "fst (reconcileChannel okDiscord [exEmbed 0] ''chan1'' exSlots3) ''chan1''
       = Some [''old0'']"
    by (simp add: reconcileChannel_def okDiscord_def okChannel_def exSlots3_def slotsOf_def)
  ultimately show ?thesis
    using grow shrink failedEdit by blast
qed

text \<open>
  Claim C8 as it is stated fails in two ways. A channel that was fetched and whose
  sends throw: with one remembered slot and two embeds the pass stops at the first
  send, and the remembered list keeps its length 1. A channel whose edits throw: growth
  from 1 slot to 3 embeds makes 3 creates and no edit.
\<close>

theorem slot_list_length_counterexample:
  "brokenDiscord ''chan1'' = Resolves (Some brokenChannel)
   \<and> fst (reconcileChannel brokenDiscord [exEmbed 0, exEmbed 1] ''chan1'' exSlots) ''chan1''
       = Some [''old0'']
   \<and> noEditDiscord ''chan1'' = Resolves (Some noEditChannel)
   \<and> length (filter is_Send
       (snd (reconcileChannel noEditDiscord [exEmbed 0, exEmbed 1, exEmbed 2] ''chan1'' exSlots)))
       = 3
   \<and> length (filter is_Edit
       (snd (reconcileChannel noEditDiscord [exEmbed 0, exEmbed 1, exEmbed 2] ''chan1'' exSlots)))
       = 0"
  by (simp add: reconcileChannel_def brokenDiscord_def brokenChannel_def noEditDiscord_def
      noEditChannel_def exSlots_def slotsOf_def deleteLeftovers_def)

text \<open>
  Claim C9. When the fetch of a channel throws (or yields no channel), or a send throws
  inside the block of that channel, the remembered slot lists after the block are the
  ones before it; the loop goes on with the remaining channels from that unchanged
  state, and the operations of the failed block are followed by theirs. If the channel
  is not listed again, its slot list is still the old one when the loop ends.
\<close>

theorem failed_surface_keeps_its_slots:
  assumes "cl c = Throws \<or> cl c = Resolves None
     \<or> (\<exists>ch i. cl c = Resolves (Some ch) \<and> i < length items
          \<and> \<not> (i < length (slotsOf lm c) \<and> messages_fetch ch i \<and> msg_edit ch i)
          \<and> send ch i = None)"
  shows "fst (reconcileChannel cl items c lm) = lm
     \<and> fst (reconcileChannels cl items (c # rest) lm) = fst (reconcileChannels cl items rest lm)
     \<and> snd (reconcileChannels cl items (c # rest) lm) =
         snd (reconcileChannel cl items c lm) @ snd (reconcileChannels cl items rest lm)
     \<and> (c \<notin> set rest \<longrightarrow> fst (reconcileChannels cl items (c # rest) lm) c = lm c)"
proof -
  have same: "fst (reconcileChannel cl items c lm) = lm"
    using assms
  proof (elim disjE exE conjE)
    fix ch i
    assume ch: "cl c = Resolves (Some ch)" and i: "i < length items"
      and ne: "\<not> (i < length (slotsOf lm c) \<and> messages_fetch ch i \<and> msg_edit ch i)"
      and s: "send ch i = None"
    have "\<not> (\<exists>ms ops. reconcileSlots ch (slotsOf lm c) 0 items [] [] = (Inr ms, ops))"
      unfolding reconcileSlots_completes_iff using i ne s by auto
    then obtain err ops where "reconcileSlots ch (slotsOf lm c) 0 items [] [] = (Inl err, ops)"
      by (cases "reconcileSlots ch (slotsOf lm c) 0 items [] []") (metis sum.exhaust)
    with ch show ?thesis by (simp add: reconcileChannel_def)
  qed (simp_all add: reconcileChannel_def)
  then have rest:
    "fst (reconcileChannels cl items (c # rest) lm) = fst (reconcileChannels cl items rest lm)"
    by (simp only: reconcileChannels_Cons fst_conv)
  have ops: "snd (reconcileChannels cl items (c # rest) lm) =
         snd (reconcileChannel cl items c lm) @ snd (reconcileChannels cl items rest lm)"
    using same by (simp only: reconcileChannels_Cons snd_conv)
  from rest have "c \<notin> set rest \<Longrightarrow> fst (reconcileChannels cl items (c # rest) lm) c = lm c"
    by (simp add: reconcileChannels_other)
  with same rest ops show ?thesis by blast
qed

theorem failed_surface_keeps_its_slots_witness:
  "fst (reconcileChannel halfDiscord [exEmbed 0] ''chan1'' exSlots) = exSlots
   \<and> fst (reconcileChannels halfDiscord [exEmbed 0] [''chan1'', ''chan2''] exSlots) ''chan1''
       = Some [''old0'']
   \<and> fst (reconcileChannels halfDiscord [exEmbed 0] [''chan1'', ''chan2''] exSlots) ''chan2''
       = Some [''new0'']
   \<and> fst (reconcileChannel brokenDiscord [exEmbed 0, exEmbed 1] ''chan1'' exSlots) = exSlots"
proof -
  have thrown: "halfDiscord ''chan1'' = Throws \<or> halfDiscord ''chan1'' = Resolves None
     \<or> (\<exists>ch i. halfDiscord ''chan1'' = Resolves (Some ch) \<and> i < length [exEmbed 0]
          \<and> \<not> (i < length (slotsOf exSlots ''chan1'') \<and> messages_fetch ch i \<and> msg_edit ch i)
          \<and> send ch i = None)"
    by (simp add: halfDiscord_def)
  have "brokenDiscord ''chan1'' = Resolves (Some brokenChannel) \<and> 0 < length [exEmbed 0, exEmbed 1]
      \<and> \<not> (0 < length (slotsOf exSlots ''chan1'') \<and> messages_fetch brokenChannel 0
             \<and> msg_edit brokenChannel 0)
      \<and> send brokenChannel 0 = None"
    by (simp add: brokenDiscord_def brokenChannel_def)
  then have escaped: "brokenDiscord ''chan1'' = Throws \<or> brokenDiscord ''chan1'' = Resolves None
     \<or> (\<exists>ch i. brokenDiscord ''chan1'' = Resolves (Some ch) \<and> i < length [exEmbed 0, exEmbed 1]
          \<and> \<not> (i < length (slotsOf exSlots ''chan1'') \<and> messages_fetch ch i \<and> msg_edit ch i)
          \<and> send ch i = None)"
    by blast
  note half = failed_surface_keeps_its_slots
    [of halfDiscord "''chan1''" "[exEmbed 0]" exSlots "[''chan2'']", OF thrown]
  have a: "fst (reconcileChannel halfDiscord [exEmbed 0] ''chan1'' exSlots) = exSlots"
    using half by blast
  have other: "''chan1'' \<notin> set [''chan2'']"
    by simp
  have b: "fst (reconcileChannels halfDiscord [exEmbed 0] [''chan1'', ''chan2''] exSlots) ''chan1''
      = exSlots ''chan1''"
    using half other by blast
  have "fst (reconcileChannels halfDiscord [exEmbed 0] [''chan1'', ''chan2''] exSlots)
      = fst (reconcileChannels halfDiscord [exEmbed 0] [''chan2''] exSlots)"
    using half by blast
  moreover have "fst (reconcileChannels halfDiscord [exEmbed 0] [''chan2''] exSlots) ''chan2''
      = Some [''new0'']"
    by (simp add: reconcileChannel_def halfDiscord_def okChannel_def exSlots_def slotsOf_def
        show_nat_examples deleteLeftovers_def)
  ultimately have c:
    "fst (reconcileChannels halfDiscord [exEmbed 0] [''chan1'', ''chan2''] exSlots) ''chan2''
      = Some [''new0'']"
    by simp
  have d: "fst (reconcileChannel brokenDiscord [exEmbed 0, exEmbed 1] ''chan1'' exSlots) = exSlots"
    using failed_surface_keeps_its_slots
      [of brokenDiscord "''chan1''" "[exEmbed 0, exEmbed 1]" exSlots, OF escaped]
    by blast
  from a b c d show ?thesis
    by (simp add: exSlots_def)
qed

end
